theory Spec2Isabelle
  imports Complex_Main
begin

section \<open>Stock pattern matcher: data model\<close>

text \<open>
  The development follows \<^verbatim>\<open>src/homework/01/stock_pattern_matcher.py\<close>, class
  \<^verbatim>\<open>StockPatternMatcher\<close>.  Prices are float64 values in the program; they are modelled as
  real numbers.  A float that is not a finite number (the NaN that \<^verbatim>\<open>np.corrcoef\<close> yields
  from \<^verbatim>\<open>0/0\<close>, and whatever is computed from it) is modelled as \<open>None\<close> in
  \<open>real option\<close>.  Python integers are \<open>int\<close>.  Every exception is a value of type
  \<open>error\<close>.
\<close>

datatype error =
    EmptyReduction            \<comment> \<open>\<^verbatim>\<open>np.min\<close>/\<^verbatim>\<open>np.max\<close> of a zero-size array (ValueError)\<close>
  | DataShortage int int      \<comment> \<open>line 112: days needed, days available\<close>
  | HistoryShortage           \<comment> \<open>line 143\<close>
  | ShapeMismatch             \<comment> \<open>\<^verbatim>\<open>np.corrcoef\<close> on arrays of different lengths (ValueError)\<close>
  | IndexOutOfBounds          \<comment> \<open>\<^verbatim>\<open>.iloc[i]\<close> outside the frame (IndexError)\<close>

type_synonym npfloat = "real option"

text \<open>
  One row of the data frame \<^verbatim>\<open>self.data\<close> after \<^verbatim>\<open>fetch_data\<close>: the date, the closing
  price and the normalized closing price (the added column).  The frame is the list of
  its rows in positional order.
\<close>

record 'd bar =
  date :: 'd
  close :: real
  close_norm :: real

type_synonym 'd frame = "'d bar list"

text \<open>The dictionary appended to \<^verbatim>\<open>similarities\<close> at lines 166-175.\<close>

record 'd similarity =
  start_idx :: int
  end_idx :: int
  start_date :: 'd
  end_date :: 'd
  dtw_distance :: real
  correlation :: npfloat
  score :: npfloat
  pattern :: "real list"

text \<open>
  \<^verbatim>\<open>fastdtw\<close> is a function of a third-party library; the matcher is parametrised by it.
  It maps two sequences to a distance and a warping path.
\<close>

type_synonym dtw_fun = "real list \<Rightarrow> real list \<Rightarrow> real \<times> (nat \<times> nat) list"

section \<open>Positional access\<close>

text \<open>
  A slice bound is clamped to the length; a negative bound counts from the end.  A single
  positional index outside the frame raises.
\<close>

definition slice_bound :: "int \<Rightarrow> int \<Rightarrow> nat" where
  "slice_bound n i = nat (if i < 0 then max 0 (i + n) else min i n)"

definition iloc_slice :: "'a list \<Rightarrow> int \<Rightarrow> int \<Rightarrow> 'a list" where
  "iloc_slice xs start stop =
     (let n = int (length xs)
      in drop (slice_bound n start) (take (slice_bound n stop) xs))"

definition iloc_at :: "'a list \<Rightarrow> int \<Rightarrow> error + 'a" where
  "iloc_at xs i =
     (let n = int (length xs); j = (if i < 0 then i + n else i)
      in if 0 \<le> j \<and> j < n then Inr (xs ! nat j) else Inl IndexOutOfBounds)"

text \<open>\<^verbatim>\<open>range(a, b)\<close> over Python integers.\<close>

definition py_range :: "int \<Rightarrow> int \<Rightarrow> int list" where
  "py_range a b = [a..b - 1]"

section \<open>normalize_series (lines 71-78)\<close>

fun np_min :: "real list \<Rightarrow> error + real" where
  "np_min [] = Inl EmptyReduction"
| "np_min (x # xs) = Inr (fold min xs x)"

fun np_max :: "real list \<Rightarrow> error + real" where
  "np_max [] = Inl EmptyReduction"
| "np_max (x # xs) = Inr (fold max xs x)"

definition normalize_series :: "real list \<Rightarrow> error + real list" where
  "normalize_series series =
     (case np_min series of
        Inl e \<Rightarrow> Inl e
      | Inr min_val \<Rightarrow>
          (case np_max series of
             Inl e \<Rightarrow> Inl e
           | Inr max_val \<Rightarrow>
               if max_val = min_val then Inr (replicate (length series) 0)
               else Inr (map (\<lambda>v. (v - min_val) / (max_val - min_val)) series)))"

section \<open>fetch_data (lines 57-62)\<close>


section \<open>calculate_dtw_distance (lines 80-87)\<close>

definition calculate_dtw_distance ::
  "dtw_fun \<Rightarrow> real list \<Rightarrow> real list \<Rightarrow> real \<times> (nat \<times> nat) list" where
  "calculate_dtw_distance fastdtw pattern1 pattern2 =
     (let (distance, path) = fastdtw pattern1 pattern2 in (distance, path))"

section \<open>get_recent_pattern (lines 89-120)\<close>

definition days_needed_of :: "real \<Rightarrow> int" where
  "days_needed_of a_hours =
     (let days_needed = max 1 \<lceil>a_hours / 4\<rceil>;
          min_data_points = 20
      in if days_needed < min_data_points then min_data_points else days_needed)"

definition get_recent_pattern :: "'d frame \<Rightarrow> real \<Rightarrow> error + (real list \<times> int \<times> int)" where
  "get_recent_pattern data a_hours =
     (let days_needed = days_needed_of a_hours
      in if int (length data) < days_needed
         then Inl (DataShortage days_needed (int (length data)))
         else
           let end_i = int (length data) - 1;
               start_i = max 0 (end_i - days_needed + 1);
               pat = iloc_slice (map close_norm data) start_i (end_i + 1)
           in Inr (pat, start_i, end_i))"

section \<open>The Pearson correlation of np.corrcoef\<close>

text \<open>
  \<^verbatim>\<open>np.corrcoef(x, y)[0, 1]\<close>: the covariance divided by both standard deviations,
  clipped to \<open>[-1, 1]\<close>.  Arrays of different lengths cannot be stacked and raise.  With a
  zero standard deviation the covariance is zero as well and the quotient \<^verbatim>\<open>0/0\<close> is
  NaN; the warning is suppressed (line 14) and no exception is raised.
\<close>

definition np_mean :: "real list \<Rightarrow> real" where
  "np_mean xs = sum_list xs / real (length xs)"

definition np_cov :: "real list \<Rightarrow> real list \<Rightarrow> real" where
  "np_cov xs ys =
     sum_list (map2 (\<lambda>x y. (x - np_mean xs) * (y - np_mean ys)) xs ys)
       / (real (length xs) - 1)"

definition pearson :: "real list \<Rightarrow> real list \<Rightarrow> npfloat" where
  "pearson xs ys =
     (let c = np_cov xs ys;
          stddev_x = sqrt (np_cov xs xs);
          stddev_y = sqrt (np_cov ys ys)
      in if stddev_x = 0 \<or> stddev_y = 0 then None
         else Some (max (- 1) (min 1 (c / stddev_x / stddev_y))))"

definition np_corrcoef :: "real list \<Rightarrow> real list \<Rightarrow> error + npfloat" where
  "np_corrcoef xs ys =
     (if length xs \<noteq> length ys then Inl ShapeMismatch else Inr (pearson xs ys))"

text \<open>
  Line 164: \<^verbatim>\<open>correlation * (1 / (1 + dtw_distance))\<close>.  NaN propagates.  A distance
  is never negative, so \<open>1 + distance\<close> is positive for every output of a DTW; for the
  remaining inputs of the model the quotient has no finite value.
\<close>

definition composite_score :: "npfloat \<Rightarrow> real \<Rightarrow> npfloat" where
  "composite_score corr distance =
     (case corr of
        None \<Rightarrow> None
      | Some r \<Rightarrow> if 1 + distance = 0 then None else Some (r * (1 / (1 + distance))))"

section \<open>find_similar_patterns (lines 122-200)\<close>

text \<open>
  One iteration of the sliding-window loop, lines 150-175, in the order of the program:
  the slice of the normalized column, the distance, the correlation (which raises when
  the slice was cut short by the end of the frame), the score, and the two date lookups
  (which raise outside the frame).
\<close>

definition scan_window ::
  "dtw_fun \<Rightarrow> 'd frame \<Rightarrow> real list \<Rightarrow> int \<Rightarrow> int \<Rightarrow> error + 'd similarity" where
  "scan_window fastdtw data recent_pattern pattern_length i =
     (let hist_start = i - pattern_length + 1;
          hist_end = i + 1;
          hist_pattern = iloc_slice (map close_norm data) hist_start hist_end;
          (distance, path) = calculate_dtw_distance fastdtw recent_pattern hist_pattern
      in case np_corrcoef recent_pattern hist_pattern of
           Inl e \<Rightarrow> Inl e
         | Inr corr \<Rightarrow>
             (let sc = composite_score corr distance
              in case iloc_at (map date data) hist_start of
                   Inl e \<Rightarrow> Inl e
                 | Inr sd \<Rightarrow>
                     (case iloc_at (map date data) (hist_end - 1) of
                        Inl e \<Rightarrow> Inl e
                      | Inr ed \<Rightarrow>
                          Inr \<lparr>start_idx = hist_start, end_idx = hist_end - 1,
                               start_date = sd, end_date = ed,
                               dtw_distance = distance, correlation = corr,
                               score = sc, pattern = hist_pattern\<rparr>)))"

text \<open>The loop of line 149 over the indices still to visit; an exception ends it.\<close>

fun scan_loop ::
  "dtw_fun \<Rightarrow> 'd frame \<Rightarrow> real list \<Rightarrow> int \<Rightarrow> int list \<Rightarrow> 'd similarity list
     \<Rightarrow> error + 'd similarity list" where
  "scan_loop fastdtw data recent_pattern pattern_length [] similarities = Inr similarities"
| "scan_loop fastdtw data recent_pattern pattern_length (i # rest) similarities =
     (case scan_window fastdtw data recent_pattern pattern_length i of
        Inl e \<Rightarrow> Inl e
      | Inr sim \<Rightarrow>
          scan_loop fastdtw data recent_pattern pattern_length rest (similarities @ [sim]))"

text \<open>
  Lines 134-175: the reference window, the search range and the scan.  The result is the
  list \<^verbatim>\<open>similarities\<close> before it is sorted, with the reference pattern and its indices.
\<close>

definition scan_candidates ::
  "dtw_fun \<Rightarrow> 'd frame \<Rightarrow> real \<Rightarrow> int
     \<Rightarrow> error + ('d similarity list \<times> real list \<times> int \<times> int)" where
  "scan_candidates fastdtw data a_hours min_gap_days =
     (case get_recent_pattern data a_hours of
        Inl e \<Rightarrow> Inl e
      | Inr (recent_pattern, recent_start, recent_end) \<Rightarrow>
          (let pattern_length = int (length recent_pattern);
               search_end = recent_start - min_gap_days
           in if search_end < pattern_length then Inl HistoryShortage
              else
                case scan_loop fastdtw data recent_pattern pattern_length
                       (py_range (pattern_length - 1) search_end) [] of
                  Inl e \<Rightarrow> Inl e
                | Inr similarities \<Rightarrow>
                    Inr (similarities, recent_pattern, recent_start, recent_end)))"

text \<open>The inner loop of lines 187-191.\<close>

fun overlaps_used :: "int \<Rightarrow> 'd similarity \<Rightarrow> (int \<times> int) list \<Rightarrow> bool" where
  "overlaps_used min_gap_days sim [] = False"
| "overlaps_used min_gap_days sim ((used_start, used_end) # rest) =
     (if \<not> (end_idx sim < used_start - min_gap_days \<or>
             start_idx sim > used_end + min_gap_days)
      then True
      else overlaps_used min_gap_days sim rest)"

text \<open>The outer loop of lines 184-198, with its two accumulators.\<close>

fun select_loop ::
  "int \<Rightarrow> int \<Rightarrow> 'd similarity list \<Rightarrow> 'd similarity list \<Rightarrow> (int \<times> int) list
     \<Rightarrow> 'd similarity list" where
  "select_loop top_n min_gap_days [] filtered_similarities used_ranges = filtered_similarities"
| "select_loop top_n min_gap_days (sim # rest) filtered_similarities used_ranges =
     (if overlaps_used min_gap_days sim used_ranges
      then select_loop top_n min_gap_days rest filtered_similarities used_ranges
      else
        let filtered_similarities = filtered_similarities @ [sim];
            used_ranges = used_ranges @ [(start_idx sim, end_idx sim)]
        in if int (length filtered_similarities) \<ge> top_n then filtered_similarities
           else select_loop top_n min_gap_days rest filtered_similarities used_ranges)"

text \<open>
  Lines 177-198.  \<^verbatim>\<open>list.sort\<close> is a stable sort by the key; \<open>sort_key\<close> is the stable
  insertion sort.
\<close>

definition rank_and_filter ::
  "int \<Rightarrow> int \<Rightarrow> 'd similarity list \<Rightarrow> 'd similarity list" where
  "rank_and_filter top_n min_gap_days similarities =
     select_loop top_n min_gap_days (sort_key dtw_distance similarities) [] []"

definition find_similar_patterns ::
  "dtw_fun \<Rightarrow> 'd frame \<Rightarrow> real \<Rightarrow> int \<Rightarrow> int
     \<Rightarrow> error + ('d similarity list \<times> real list \<times> int \<times> int)" where
  "find_similar_patterns fastdtw data a_hours top_n min_gap_days =
     (case scan_candidates fastdtw data a_hours min_gap_days of
        Inl e \<Rightarrow> Inl e
      | Inr (similarities, recent_pattern, recent_start, recent_end) \<Rightarrow>
          Inr (rank_and_filter top_n min_gap_days similarities,
               recent_pattern, recent_start, recent_end))"

section \<open>Notions used in the statements\<close>

text \<open>
  The separation condition of lines 188-189 between two matches, the index range stored
  in \<^verbatim>\<open>used_ranges\<close>, the order "smaller distance first, equal distances by ascending
  start index", and agreement of two candidates on index range and distance.
\<close>

definition gap_separated :: "int \<Rightarrow> 'd similarity \<Rightarrow> 'd similarity \<Rightarrow> bool" where
  "gap_separated min_gap_days u v \<longleftrightarrow>
     end_idx u < start_idx v - min_gap_days \<or> start_idx u > end_idx v + min_gap_days"

definition index_range :: "'d similarity \<Rightarrow> int \<times> int" where
  "index_range sim = (start_idx sim, end_idx sim)"

definition ranked_before :: "'d similarity \<Rightarrow> 'd similarity \<Rightarrow> bool" where
  "ranked_before u v \<longleftrightarrow>
     dtw_distance u < dtw_distance v \<or>
     (dtw_distance u = dtw_distance v \<and> start_idx u < start_idx v)"

definition same_key :: "'d similarity \<Rightarrow> 'd similarity \<Rightarrow> bool" where
  "same_key u v \<longleftrightarrow>
     start_idx u = start_idx v \<and> end_idx u = end_idx v \<and> dtw_distance u = dtw_distance v"

section \<open>Example data\<close>

text \<open>
  A stand-in for \<^verbatim>\<open>fastdtw\<close> in the concrete runs: the sum of the pointwise absolute
  differences, with an empty path.  The general theorems hold for every function in its
  place.
\<close>

definition lockstep :: dtw_fun where
  "lockstep a b = (sum_list (map2 (\<lambda>x y. \<bar>x - y\<bar>) a b), [])"

text \<open>
  Sixty days: the price falls from 20 to 0, rises to 19, and stays at 20 for the last
  twenty days.  \<open>tri_frame\<close> is the frame that \<open>fetch_data\<close> builds from it;
  \<open>tri_norm\<close> is its normalized column, \<open>tri_candidate s\<close> the candidate of the window
  that starts at \<open>s\<close>, and \<open>tri_own_norm\<close> the first window rescaled by its own minimum
  and maximum.  \<open>short_frame\<close> keeps the first thirty days only.
\<close>

definition tri_closes :: "real list" where
  "tri_closes = map (\<lambda>k. \<bar>real_of_int k - 20\<bar>) [0..39] @ replicate 20 20"

definition tri_quotes :: "(int \<times> real) list" where
  "tri_quotes = zip [0..59] tri_closes"

definition tri_frame :: "int frame" where
  "tri_frame =
     map (\<lambda>(k, c). \<lparr>date = k, close = c, close_norm = c / 20\<rparr>) tri_quotes"

definition tri_norm :: "real list" where
  "tri_norm = map (\<lambda>k. \<bar>real_of_int k - 20\<bar> / 20) [0..39] @ replicate 20 1"

definition tri_candidate :: "int \<Rightarrow> int similarity" where
  "tri_candidate s =
     \<lparr>start_idx = s, end_idx = s + 19, start_date = s, end_date = s + 19,
      dtw_distance = fst (lockstep (replicate 20 1) (iloc_slice tri_norm s (s + 20))),
      correlation = None, score = None,
      pattern = iloc_slice tri_norm s (s + 20)\<rparr>"








text \<open>
  A row used to build frames of a given length.
\<close>

definition unit_bar :: "int bar" where
  "unit_bar = \<lparr>date = 0, close = 1, close_norm = 0\<rparr>"

section \<open>Properties of normalize_series and fetch_data\<close>

lemma fold_min_Min: "fold min xs (x::real) = Min (set (x # xs))"
proof (induction xs arbitrary: x)
  case Nil
  show ?case by simp
next
  case (Cons y ys)
  have "fold min (y # ys) x = Min (set (min y x # ys))"
    using Cons.IH [of "min y x"] by simp
  also have "\<dots> = Min (set (x # y # ys))"
    by (cases ys) (simp_all add: min.commute min.left_commute min.assoc)
  finally show ?case .
qed

lemma fold_max_Max: "fold max xs (x::real) = Max (set (x # xs))"
proof (induction xs arbitrary: x)
  case Nil
  show ?case by simp
next
  case (Cons y ys)
  have "fold max (y # ys) x = Max (set (max y x # ys))"
    using Cons.IH [of "max y x"] by simp
  also have "\<dots> = Max (set (x # y # ys))"
    by (cases ys) (simp_all add: max.commute max.left_commute max.assoc)
  finally show ?case .
qed

lemma np_min_Min: "series \<noteq> [] \<Longrightarrow> np_min series = Inr (Min (set series))"
proof (cases series)
  case Nil
  assume "series \<noteq> []"
  with Nil show ?thesis by simp
next
  case (Cons x xs)
  show ?thesis by (simp only: Cons np_min.simps fold_min_Min)
qed

lemma np_max_Max: "series \<noteq> [] \<Longrightarrow> np_max series = Inr (Max (set series))"
proof (cases series)
  case Nil
  assume "series \<noteq> []"
  with Nil show ?thesis by simp
next
  case (Cons x xs)
  show ?thesis by (simp only: Cons np_max.simps fold_max_Max)
qed

lemma normalize_series_eq:
  assumes "series \<noteq> []"
  shows "normalize_series series =
           (if Max (set series) = Min (set series) then Inr (replicate (length series) 0)
            else Inr (map (\<lambda>v. (v - Min (set series)) / (Max (set series) - Min (set series)))
                        series))"
  by (simp add: normalize_series_def np_min_Min [OF assms] np_max_Max [OF assms])

lemma Max_eq_Min_iff_constant:
  fixes series :: "real list"
  assumes "series \<noteq> []"
  shows "Max (set series) = Min (set series) \<longleftrightarrow> (\<forall>v\<in>set series. v = hd series)"
proof
  assume eq: "Max (set series) = Min (set series)"
  have hd_in: "hd series \<in> set series" using assms by simp
  show "\<forall>v\<in>set series. v = hd series"
  proof
    fix v assume v: "v \<in> set series"
    have "Min (set series) \<le> v" "v \<le> Max (set series)" using v by simp_all
    moreover have "Min (set series) \<le> hd series" "hd series \<le> Max (set series)"
      using hd_in by simp_all
    ultimately show "v = hd series" using eq by linarith
  qed
next
  assume const: "\<forall>v\<in>set series. v = hd series"
  have "set series = {hd series}" using assms const by (cases series) auto
  then show "Max (set series) = Min (set series)" by simp
qed

lemma scaled_Min_Max:
  fixes series :: "real list"
  assumes ne: "series \<noteq> []" and neq: "Max (set series) \<noteq> Min (set series)"
  defines "f \<equiv> \<lambda>v. (v - Min (set series)) / (Max (set series) - Min (set series))"
  shows "Min (set (map f series)) = 0" and "Max (set (map f series)) = 1"
proof -
  have fin: "finite (set series)" "set series \<noteq> {}" using ne by simp_all
  have "Min (set series) \<le> Max (set series)" using fin by simp
  with neq have pos: "0 < Max (set series) - Min (set series)" by simp
  have m: "mono f" unfolding f_def using pos by (intro monoI) (simp add: divide_right_mono)
  have "Min (set (map f series)) = f (Min (set series))"
    using mono_Min_commute [OF m fin] by simp
  then show "Min (set (map f series)) = 0" by (simp add: f_def)
  have "Max (set (map f series)) = f (Max (set series))"
    using mono_Max_commute [OF m fin] by simp
  then show "Max (set (map f series)) = 1" using pos by (simp add: f_def)
qed



section \<open>Positional access and the reference window\<close>

lemma days_needed_of_eq: "days_needed_of a_hours = max \<lceil>a_hours / 4\<rceil> 20"
  by (simp add: days_needed_of_def Let_def)

lemma iloc_slice_in_bounds:
  assumes "0 \<le> s" and "s \<le> e" and "e \<le> int (length xs)"
  shows "iloc_slice xs s e = drop (nat s) (take (nat e) xs)"
    and "int (length (iloc_slice xs s e)) = e - s"
proof -
  have b: "slice_bound (int (length xs)) s = nat s" "slice_bound (int (length xs)) e = nat e"
    using assms by (simp_all add: slice_bound_def)
  show "iloc_slice xs s e = drop (nat s) (take (nat e) xs)"
    by (simp add: iloc_slice_def b)
  then show "int (length (iloc_slice xs s e)) = e - s"
    using assms by simp
qed


lemma get_recent_pattern_eq:
  "get_recent_pattern data a_hours =
     (if int (length data) < days_needed_of a_hours
      then Inl (DataShortage (days_needed_of a_hours) (int (length data)))
      else Inr (iloc_slice (map close_norm data)
                  (max 0 (int (length data) - 1 - days_needed_of a_hours + 1))
                  (int (length data)),
                max 0 (int (length data) - 1 - days_needed_of a_hours + 1),
                int (length data) - 1))"
  by (simp add: get_recent_pattern_def Let_def)


section \<open>Correlation of a constant sequence\<close>

lemma sum_list_all_zero: "\<forall>x\<in>set xs. x = (0::real) \<Longrightarrow> sum_list xs = 0"
  by (induction xs) simp_all

lemma np_mean_const:
  assumes "xs \<noteq> []" and "\<forall>v\<in>set xs. v = c"
  shows "np_mean xs = c"
proof -
  have "sum_list xs = c * real (length xs)"
    using assms(2) by (induction xs) (simp_all add: algebra_simps)
  then show ?thesis using assms(1) by (simp add: np_mean_def)
qed

lemma np_cov_const:
  assumes "\<forall>v\<in>set xs. v = c"
  shows "np_cov xs xs = 0"
proof (cases "xs = []")
  case True
  then show ?thesis by (simp add: np_cov_def)
next
  case False
  have m: "np_mean xs = c" using np_mean_const [OF False assms] .
  have "\<forall>t\<in>set (map2 (\<lambda>x y. (x - np_mean xs) * (y - np_mean xs)) xs xs). t = 0"
    using assms m by (auto dest!: set_zip_leftD)
  then have "sum_list (map2 (\<lambda>x y. (x - np_mean xs) * (y - np_mean xs)) xs xs) = 0"
    by (rule sum_list_all_zero)
  then show ?thesis by (simp add: np_cov_def)
qed

lemma pearson_degenerate:
  assumes "(\<forall>v\<in>set xs. v = hd xs) \<or> (\<forall>v\<in>set ys. v = hd ys)"
  shows "pearson xs ys = None"
proof -
  have "np_cov xs xs = 0 \<or> np_cov ys ys = 0"
    using assms np_cov_const [of xs "hd xs"] np_cov_const [of ys "hd ys"] by blast
  then show ?thesis by (auto simp: pearson_def Let_def)
qed

lemma pearson_ones: "pearson (replicate n 1) ys = None"
  by (rule pearson_degenerate) simp


section \<open>The scan\<close>

lemma scan_window_Inr:
  assumes "scan_window fastdtw data rp L i = Inr c"
  shows "start_idx c = i - L + 1"
    and "end_idx c = i"
    and "pattern c = iloc_slice (map close_norm data) (i - L + 1) (i + 1)"
    and "dtw_distance c = fst (fastdtw rp (pattern c))"
    and "np_corrcoef rp (pattern c) = Inr (correlation c)"
    and "score c = composite_score (correlation c) (dtw_distance c)"
    and "iloc_at (map date data) (start_idx c) = Inr (start_date c)"
    and "iloc_at (map date data) (end_idx c) = Inr (end_date c)"
  using assms
  by (auto simp: scan_window_def calculate_dtw_distance_def Let_def
           split: sum.splits prod.splits)



lemma scan_window_eq:
  assumes "int (length rp) = L" and "1 \<le> L" and "L - 1 \<le> i" and "i < int (length data)"
  shows "scan_window fastdtw data rp L i =
     Inr \<lparr>start_idx = i - L + 1, end_idx = i,
          start_date = date (data ! nat (i - L + 1)), end_date = date (data ! nat i),
          dtw_distance = fst (fastdtw rp (iloc_slice (map close_norm data) (i - L + 1) (i + 1))),
          correlation = pearson rp (iloc_slice (map close_norm data) (i - L + 1) (i + 1)),
          score = composite_score
                    (pearson rp (iloc_slice (map close_norm data) (i - L + 1) (i + 1)))
                    (fst (fastdtw rp (iloc_slice (map close_norm data) (i - L + 1) (i + 1)))),
          pattern = iloc_slice (map close_norm data) (i - L + 1) (i + 1)\<rparr>"
proof -
  have "int (length (iloc_slice (map close_norm data) (i - L + 1) (i + 1))) = L"
    using iloc_slice_in_bounds(2) [of "i - L + 1" "i + 1" "map close_norm data"] assms
    by simp
  then have len: "length rp = length (iloc_slice (map close_norm data) (i - L + 1) (i + 1))"
    using assms(1) by linarith
  have s: "iloc_at (map date data) (i - L + 1) = Inr (date (data ! nat (i - L + 1)))"
    using assms by (simp add: iloc_at_def)
  have e: "iloc_at (map date data) i = Inr (date (data ! nat i))"
    using assms by (simp add: iloc_at_def)
  show ?thesis
    using len s e
    by (simp add: scan_window_def calculate_dtw_distance_def np_corrcoef_def Let_def
          split: prod.splits)
qed

lemma scan_loop_Inr:
  assumes "scan_loop fastdtw data rp L idxs acc = Inr sims"
  shows "\<exists>new. sims = acc @ new \<and>
           list_all2 (\<lambda>i c. scan_window fastdtw data rp L i = Inr c) idxs new"
  using assms
proof (induction idxs arbitrary: acc)
  case Nil
  then show ?case by simp
next
  case (Cons i rest)
  then obtain c where c: "scan_window fastdtw data rp L i = Inr c"
    and run: "scan_loop fastdtw data rp L rest (acc @ [c]) = Inr sims"
    by (auto split: sum.splits)
  obtain new where "sims = (acc @ [c]) @ new"
    "list_all2 (\<lambda>i c. scan_window fastdtw data rp L i = Inr c) rest new"
    using Cons.IH [OF run] by blast
  then have "sims = acc @ (c # new) \<and>
    list_all2 (\<lambda>i c. scan_window fastdtw data rp L i = Inr c) (i # rest) (c # new)"
    using c by simp
  then show ?case by blast
qed



lemma scan_loop_map:
  assumes "\<forall>i\<in>set idxs. scan_window fastdtw data rp L i = Inr (g i)"
  shows "scan_loop fastdtw data rp L idxs acc = Inr (acc @ map g idxs)"
  using assms by (induction idxs arbitrary: acc) simp_all

lemma scanned_indices:
  assumes "list_all2 (\<lambda>i c. scan_window fastdtw data rp L i = Inr c) idxs sims"
  shows "map end_idx sims = idxs" and "map start_idx sims = map (\<lambda>i. i - L + 1) idxs"
  using assms by (induction rule: list_all2_induct) (auto dest: scan_window_Inr(1,2))



lemma scan_candidates_Inr:
  assumes "scan_candidates fastdtw data a_hours g = Inr (sims, rp, rs, re)"
  shows "get_recent_pattern data a_hours = Inr (rp, rs, re)"
    and "int (length rp) \<le> rs - g"
    and "list_all2 (\<lambda>i c. scan_window fastdtw data rp (int (length rp)) i = Inr c)
           [int (length rp) - 1..rs - g - 1] sims"
proof -
  from assms obtain rp' rs' re' where
    g: "get_recent_pattern data a_hours = Inr (rp', rs', re')"
    by (auto simp: scan_candidates_def split: sum.splits)
  from assms g have le: "int (length rp') \<le> rs' - g"
    and run: "scan_loop fastdtw data rp' (int (length rp'))
                (py_range (int (length rp') - 1) (rs' - g)) [] = Inr sims"
    and eq: "rp' = rp" "rs' = rs" "re' = re"
    by (auto simp: scan_candidates_def Let_def split: sum.splits if_splits)
  show "get_recent_pattern data a_hours = Inr (rp, rs, re)" using g eq by simp
  show "int (length rp) \<le> rs - g" using le eq by simp
  show "list_all2 (\<lambda>i c. scan_window fastdtw data rp (int (length rp)) i = Inr c)
           [int (length rp) - 1..rs - g - 1] sims"
    using scan_loop_Inr [OF run] eq by (simp add: py_range_def)
qed



lemma scan_candidates_indices:
  assumes "scan_candidates fastdtw data a_hours g = Inr (sims, rp, rs, re)"
  shows "map end_idx sims = [int (length rp) - 1..rs - g - 1]"
    and "map start_idx sims = map (\<lambda>i. i - int (length rp) + 1) [int (length rp) - 1..rs - g - 1]"
    and "sims \<noteq> []"
    and "sorted_wrt (<) (map start_idx sims)"
proof -
  note sc = scan_candidates_Inr [OF assms]
  show e: "map end_idx sims = [int (length rp) - 1..rs - g - 1]"
    and s: "map start_idx sims =
              map (\<lambda>i. i - int (length rp) + 1) [int (length rp) - 1..rs - g - 1]"
    using scanned_indices [OF sc(3)] by simp_all
  have "[int (length rp) - 1..rs - g - 1] \<noteq> []" using sc(2) by simp
  then show "sims \<noteq> []" using e by auto
  show "sorted_wrt (<) (map start_idx sims)"
    unfolding s by (simp add: sorted_wrt_map) (rule sorted_wrt_mono_rel [OF _ sorted_wrt_upto], simp)
qed

lemma find_similar_patterns_Inr:
  assumes "find_similar_patterns fastdtw data a_hours top_n g = Inr (res, rp, rs, re)"
  shows "\<exists>sims. scan_candidates fastdtw data a_hours g = Inr (sims, rp, rs, re) \<and>
           res = rank_and_filter top_n g sims"
  using assms by (auto simp: find_similar_patterns_def split: sum.splits)


section \<open>Ranking and selection\<close>

lemma gap_separated_sym: "gap_separated g u v \<longleftrightarrow> gap_separated g v u"
  unfolding gap_separated_def by linarith

lemma overlaps_used_iff:
  "overlaps_used g sim (map index_range acc) \<longleftrightarrow> (\<exists>u\<in>set acc. \<not> gap_separated g sim u)"
  by (induction acc) (auto simp: index_range_def gap_separated_def)

lemma select_loop_sorted_wrt:
  assumes "sorted_wrt R (filtered @ sims)"
  shows "sorted_wrt R (select_loop top_n g sims filtered used)"
  using assms
proof (induction sims arbitrary: filtered used)
  case Nil
  then show ?case by simp
next
  case (Cons sim rest)
  have skip: "sorted_wrt R (filtered @ rest)"
    using Cons.prems by (auto simp: sorted_wrt_append)
  have keep: "sorted_wrt R ((filtered @ [sim]) @ rest)"
    using Cons.prems by simp
  have stop: "sorted_wrt R (filtered @ [sim])"
    using Cons.prems by (auto simp: sorted_wrt_append)
  show ?case
    using Cons.IH [OF skip] Cons.IH [OF keep] stop by (simp add: Let_def)
qed

lemma select_loop_set:
  "set (select_loop top_n g sims filtered used) \<subseteq> set filtered \<union> set sims"
proof (induction sims arbitrary: filtered used)
  case Nil
  show ?case by simp
next
  case (Cons sim rest)
  show ?case
    using Cons.IH [of filtered used]
      Cons.IH [of "filtered @ [sim]" "used @ [(start_idx sim, end_idx sim)]"]
    by (auto simp: Let_def)
qed

lemma select_loop_separated:
  assumes "sorted_wrt (gap_separated g) filtered" and "used = map index_range filtered"
  shows "sorted_wrt (gap_separated g) (select_loop top_n g sims filtered used)"
  using assms
proof (induction sims arbitrary: filtered used)
  case Nil
  then show ?case by simp
next
  case (Cons sim rest)
  show ?case
  proof (cases "overlaps_used g sim used")
    case True
    then show ?thesis using Cons.IH [OF Cons.prems] by simp
  next
    case False
    then have "\<forall>u\<in>set filtered. gap_separated g sim u"
      using overlaps_used_iff [of g sim filtered] Cons.prems(2) by simp
    then have "\<forall>u\<in>set filtered. gap_separated g u sim"
      using gap_separated_sym by blast
    then have acc: "sorted_wrt (gap_separated g) (filtered @ [sim])"
      using Cons.prems(1) by (simp add: sorted_wrt_append)
    have used': "used @ [(start_idx sim, end_idx sim)] = map index_range (filtered @ [sim])"
      using Cons.prems(2) by (simp add: index_range_def)
    show ?thesis
      using False acc Cons.IH [OF acc used'] by (simp add: Let_def)
  qed
qed

lemma select_loop_length:
  "int (length (select_loop top_n g sims filtered used))
     \<le> max top_n (int (length filtered) + (if sims = [] then 0 else 1))"
proof (induction sims arbitrary: filtered used)
  case Nil
  show ?case by simp
next
  case (Cons sim rest)
  have a: "int (length (select_loop top_n g rest filtered used))
     \<le> max top_n (int (length filtered) + 1)"
    using Cons.IH [of filtered used] by (auto split: if_splits)
  show ?case
  proof (cases "overlaps_used g sim used")
    case True
    then show ?thesis using a by simp
  next
    case False
    show ?thesis
    proof (cases "top_n \<le> int (length filtered) + 1")
      case True
      then show ?thesis using False by (simp add: Let_def)
    next
      case nf: False
      have "int (length (select_loop top_n g rest (filtered @ [sim])
               (used @ [(start_idx sim, end_idx sim)])))
            \<le> max top_n (int (length (filtered @ [sim])) + (if rest = [] then 0 else 1))"
        by (rule Cons.IH)
      then show ?thesis using False nf by (auto simp: Let_def split: if_splits)
    qed
  qed
qed

lemma select_loop_first:
  "select_loop top_n g (sim # rest) [] [] \<noteq> [] \<and>
   hd (select_loop top_n g (sim # rest) [] []) = sim"
proof -
  have ext: "\<exists>ys. select_loop top_n g sims filtered used = filtered @ ys"
    for sims and filtered :: "'a similarity list" and used
  proof (induction sims arbitrary: filtered used)
    case Nil
    show ?case by simp
  next
    case (Cons s rest)
    obtain ys where "select_loop top_n g rest (filtered @ [s])
        (used @ [(start_idx s, end_idx s)]) = (filtered @ [s]) @ ys"
      using Cons.IH by blast
    then show ?case using Cons.IH [of filtered used] by (auto simp: Let_def)
  qed
  obtain ys where "select_loop top_n g rest [sim] [(start_idx sim, end_idx sim)] = [sim] @ ys"
    using ext [of rest "[sim]"] by auto
  then show ?thesis by (simp add: Let_def)
qed

lemma insort_ranked:
  assumes "sorted_wrt ranked_before ys" and "\<forall>y\<in>set ys. start_idx x < start_idx y"
  shows "sorted_wrt ranked_before (insort_key dtw_distance x ys)"
  using assms
proof (induction ys)
  case Nil
  show ?case by simp
next
  case (Cons y ys)
  show ?case
  proof (cases "dtw_distance x \<le> dtw_distance y")
    case True
    have "ranked_before x z" if "z \<in> set (y # ys)" for z
    proof -
      have "dtw_distance y \<le> dtw_distance z"
        using that Cons.prems(1) by (auto simp: ranked_before_def)
      moreover have "start_idx x < start_idx z" using that Cons.prems(2) by auto
      ultimately show ?thesis using True unfolding ranked_before_def by linarith
    qed
    then show ?thesis using True Cons.prems(1) by simp
  next
    case False
    then have yx: "ranked_before y x" by (simp add: ranked_before_def)
    have "sorted_wrt ranked_before (insort_key dtw_distance x ys)"
      using Cons.IH Cons.prems by simp
    then show ?thesis using False yx Cons.prems(1) by (auto simp: set_insort_key)
  qed
qed

lemma sort_key_ranked:
  assumes "sorted_wrt (<) (map start_idx sims)"
  shows "sorted_wrt ranked_before (sort_key dtw_distance sims)"
  using assms
proof (induction sims)
  case Nil
  show ?case by simp
next
  case (Cons x xs)
  have "\<forall>y\<in>set (sort_key dtw_distance xs). start_idx x < start_idx y"
    using Cons.prems by auto
  then show ?case using Cons by (simp add: insort_ranked)
qed

lemma ranked_unique:
  assumes "sorted_wrt ranked_before xs" and "sorted_wrt ranked_before ys" and "set xs = set ys"
  shows "xs = ys"
  using assms
proof (induction xs arbitrary: ys)
  case Nil
  then show ?case by simp
next
  case (Cons a xs')
  then obtain b ys' where ys: "ys = b # ys'" by (cases ys) auto
  have irr: "\<not> ranked_before u u" for u :: "'a similarity" by (simp add: ranked_before_def)
  have asym: "ranked_before u v \<Longrightarrow> \<not> ranked_before v u" for u v :: "'a similarity"
    unfolding ranked_before_def by linarith
  have a_after: "\<forall>x\<in>set xs'. ranked_before a x" using Cons.prems(1) by simp
  have b_after: "\<forall>y\<in>set ys'. ranked_before b y" using Cons.prems(2) ys by simp
  have a_notin: "a \<notin> set xs'" using a_after irr by blast
  have b_notin: "b \<notin> set ys'" using b_after irr by blast
  have ab: "a = b"
  proof (rule ccontr)
    assume ne: "a \<noteq> b"
    have "a \<in> set ys'" using Cons.prems(3) ys ne by auto
    then have "ranked_before b a" using b_after by blast
    moreover have "b \<in> set xs'" using Cons.prems(3) ys ne by auto
    then have "ranked_before a b" using a_after by blast
    ultimately show False using asym by blast
  qed
  have "set xs' = set ys'" using Cons.prems(3) ys ab a_notin b_notin by auto
  moreover have "sorted_wrt ranked_before xs'" "sorted_wrt ranked_before ys'"
    using Cons.prems(1,2) ys by simp_all
  ultimately have "xs' = ys'" using Cons.IH by blast
  then show ?case using ys ab by simp
qed

text \<open>
  The matches come back in ascending order of distance, and there are at most
  \<open>top_n\<close> of them when \<open>top_n\<close> is at least 1.
\<close>

lemma returned_sorted_by_distance:
  assumes "find_similar_patterns fastdtw data a_hours top_n min_gap_days = Inr (res, rp, rs, re)"
  shows "sorted (map dtw_distance res)"
proof -
  obtain sims where res: "res = rank_and_filter top_n min_gap_days sims"
    using find_similar_patterns_Inr [OF assms] by blast
  have "sorted_wrt (\<lambda>u v. dtw_distance u \<le> dtw_distance v) (sort_key dtw_distance sims)"
    using sorted_sort_key [of dtw_distance sims] by (simp add: sorted_wrt_map)
  then have "sorted_wrt (\<lambda>u v. dtw_distance u \<le> dtw_distance v) res"
    unfolding res rank_and_filter_def by (intro select_loop_sorted_wrt) simp
  then show ?thesis by (simp add: sorted_wrt_map)
qed

lemma returned_length_bound:
  assumes "find_similar_patterns fastdtw data a_hours top_n min_gap_days = Inr (res, rp, rs, re)"
  shows "int (length res) \<le> max top_n 1"
proof -
  obtain sims where res: "res = rank_and_filter top_n min_gap_days sims"
    using find_similar_patterns_Inr [OF assms] by blast
  show ?thesis
    unfolding res rank_and_filter_def
    using select_loop_length [of top_n min_gap_days "sort_key dtw_distance sims" "[]" "[]"]
    by (auto split: if_splits)
qed

text \<open>
  Ranking and selection read the index range and the distance of a candidate and nothing
  else: two candidate lists that agree on these give results that agree on them,
  whatever their correlations, scores, dates and patterns.
\<close>

lemma insort_same_key:
  assumes "same_key x y" and "list_all2 same_key xs ys"
  shows "list_all2 same_key (insort_key dtw_distance x xs) (insort_key dtw_distance y ys)"
  using assms(2,1) by (induction rule: list_all2_induct) (auto simp: same_key_def)

lemma sort_same_key:
  assumes "list_all2 same_key xs ys"
  shows "list_all2 same_key (sort_key dtw_distance xs) (sort_key dtw_distance ys)"
  using assms by (induction rule: list_all2_induct) (simp_all add: insort_same_key)

lemma overlaps_same_key:
  "same_key x y \<Longrightarrow> overlaps_used g x used = overlaps_used g y used"
  by (induction used) (auto simp: same_key_def)

lemma select_same_key:
  assumes "list_all2 same_key xs ys" and "list_all2 same_key f1 f2"
  shows "list_all2 same_key (select_loop n g xs f1 used) (select_loop n g ys f2 used)"
  using assms
proof (induction arbitrary: f1 f2 used rule: list_all2_induct)
  case Nil
  then show ?case by simp
next
  case (Cons x xs y ys)
  have ov: "overlaps_used g x used = overlaps_used g y used"
    using Cons.hyps(1) by (rule overlaps_same_key)
  have len: "length f1 = length f2" using Cons.prems by (rule list_all2_lengthD)
  have ext: "list_all2 same_key (f1 @ [x]) (f2 @ [y])"
    using Cons.prems Cons.hyps(1) by (simp add: list_all2_appendI)
  have rng: "(start_idx x, end_idx x) = (start_idx y, end_idx y)"
    using Cons.hyps(1) by (simp add: same_key_def)
  show ?case
    using ov len ext rng Cons.IH [OF Cons.prems] Cons.IH [OF ext]
    by (simp add: Let_def)
qed

lemma ranking_uses_distance_only:
  assumes "list_all2 same_key sims sims'"
  shows "list_all2 same_key (rank_and_filter n g sims) (rank_and_filter n g sims')"
  unfolding rank_and_filter_def
  by (rule select_same_key [OF sort_same_key [OF assms]]) simp

section \<open>Example runs\<close>



lemma tri_recent: "get_recent_pattern tri_frame 8 = Inr (replicate 20 1, 40, 59)"
  by code_simp

lemma tri_norm_col: "map close_norm tri_frame = tri_norm"
  by code_simp

lemma tri_date_col: "map date tri_frame = [0..59]"
  by code_simp

lemma tri_length: "length tri_frame = 60"
  by code_simp

lemma tri_date_nth:
  assumes "0 \<le> j" and "j < 60"
  shows "date (tri_frame ! nat j) = j"
proof -
  have "date (tri_frame ! nat j) = map date tri_frame ! nat j"
    using assms by (simp add: tri_length)
  also have "\<dots> = j" unfolding tri_date_col using assms by simp
  finally show ?thesis .
qed

lemma tri_window:
  assumes "19 \<le> i" and "i \<le> 39"
  shows "scan_window lockstep tri_frame (replicate 20 1) 20 i = Inr (tri_candidate (i - 19))"
proof -
  have "scan_window lockstep tri_frame (replicate 20 1) 20 i = Inr
     \<lparr>start_idx = i - 20 + 1, end_idx = i,
      start_date = date (tri_frame ! nat (i - 20 + 1)), end_date = date (tri_frame ! nat i),
      dtw_distance = fst (lockstep (replicate 20 1)
                            (iloc_slice (map close_norm tri_frame) (i - 20 + 1) (i + 1))),
      correlation = pearson (replicate 20 1)
                      (iloc_slice (map close_norm tri_frame) (i - 20 + 1) (i + 1)),
      score = composite_score
                (pearson (replicate 20 1)
                   (iloc_slice (map close_norm tri_frame) (i - 20 + 1) (i + 1)))
                (fst (lockstep (replicate 20 1)
                        (iloc_slice (map close_norm tri_frame) (i - 20 + 1) (i + 1)))),
      pattern = iloc_slice (map close_norm tri_frame) (i - 20 + 1) (i + 1)\<rparr>"
    by (rule scan_window_eq) (use assms in \<open>simp_all add: tri_length\<close>)
  moreover have "date (tri_frame ! nat (i - 20 + 1)) = i - 19"
    using tri_date_nth [of "i - 20 + 1"] assms by simp
  moreover have "date (tri_frame ! nat i) = i"
    using tri_date_nth [of i] assms by simp
  ultimately show ?thesis
    by (simp add: tri_candidate_def tri_norm_col pearson_ones composite_score_def add.commute)
qed

lemma tri_scan:
  "scan_candidates lockstep tri_frame 8 0 = Inr (map tri_candidate [0..20], replicate 20 1, 40, 59)"
proof -
  have "scan_loop lockstep tri_frame (replicate 20 1) 20 [19..39] []
          = Inr ([] @ map (\<lambda>i. tri_candidate (i - 19)) [19..39])"
    by (rule scan_loop_map) (simp add: tri_window)
  moreover have "map (\<lambda>i. tri_candidate (i - 19)) [19..39] = map tri_candidate [0..20]"
    by (simp add: upto_rec1)
  ultimately show ?thesis
    unfolding scan_candidates_def tri_recent by (simp add: py_range_def)
qed

lemma tri_distances:
  "dtw_distance (tri_candidate 0) = 19 / 2"
  "dtw_distance (tri_candidate 1) = 21 / 2"
  "dtw_distance (tri_candidate 2) = 57 / 5"
  "dtw_distance (tri_candidate 3) = 61 / 5"
  "dtw_distance (tri_candidate 4) = 129 / 10"
  "dtw_distance (tri_candidate 5) = 27 / 2"
  "dtw_distance (tri_candidate 6) = 14"
  "dtw_distance (tri_candidate 7) = 72 / 5"
  "dtw_distance (tri_candidate 8) = 147 / 10"
  "dtw_distance (tri_candidate 9) = 149 / 10"
  "dtw_distance (tri_candidate 10) = 15"
  "dtw_distance (tri_candidate 11) = 15"
  "dtw_distance (tri_candidate 12) = 149 / 10"
  "dtw_distance (tri_candidate 13) = 147 / 10"
  "dtw_distance (tri_candidate 14) = 72 / 5"
  "dtw_distance (tri_candidate 15) = 14"
  "dtw_distance (tri_candidate 16) = 27 / 2"
  "dtw_distance (tri_candidate 17) = 129 / 10"
  "dtw_distance (tri_candidate 18) = 61 / 5"
  "dtw_distance (tri_candidate 19) = 57 / 5"
  "dtw_distance (tri_candidate 20) = 21 / 2"
  by code_simp+

lemma tri_indices: "start_idx (tri_candidate s) = s" "end_idx (tri_candidate s) = s + 19"
  by (simp_all add: tri_candidate_def)

lemma tri_ranking:
  "sort_key dtw_distance (map tri_candidate [0..20]) =
     map tri_candidate [0, 1, 20, 2, 19, 3, 18, 4, 17, 5, 16, 6, 15, 7, 14, 8, 13, 9, 12, 10, 11]"
  by (simp add: upto_rec1 tri_distances)

lemma tri_select_5:
  "rank_and_filter 5 0 (map tri_candidate [0..20]) = [tri_candidate 0, tri_candidate 20]"
  unfolding rank_and_filter_def tri_ranking by (simp add: tri_indices)

lemma tri_select_0:
  "rank_and_filter 0 0 (map tri_candidate [0..20]) = [tri_candidate 0]"
  unfolding rank_and_filter_def tri_ranking by (simp add: tri_indices)

lemma tri_run:
  "find_similar_patterns lockstep tri_frame 8 5 0
     = Inr ([tri_candidate 0, tri_candidate 20], replicate 20 1, 40, 59)"
  unfolding find_similar_patterns_def tri_scan by (simp add: tri_select_5)







section \<open>Claim C2: the compared pattern comes from the whole-series normalization\<close>




section \<open>Claim C3: a window without variance\<close>




section \<open>Claim C4: returned matches are separated by the minimum gap\<close>

text \<open>
  C4.  For every two matches at different positions \<open>i\<close> and \<open>j\<close> of the list returned
  by \<open>find_similar_patterns\<close>, either the first ends before the start of the second
  minus \<open>min_gap_days\<close>, or it starts after the end of the second plus
  \<open>min_gap_days\<close>.
\<close>

theorem returned_matches_gap_separated:
  assumes run: "find_similar_patterns fastdtw data a_hours top_n min_gap_days
                  = Inr (res, rp, rs, re)"
    and i: "i < length res" and j: "j < length res" and ne: "i \<noteq> j"
  shows "end_idx (res ! i) < start_idx (res ! j) - min_gap_days \<or>
         start_idx (res ! i) > end_idx (res ! j) + min_gap_days"
proof -
  obtain sims where "res = rank_and_filter top_n min_gap_days sims"
    using find_similar_patterns_Inr [OF run] by blast
  then have sep: "sorted_wrt (gap_separated min_gap_days) res"
    unfolding rank_and_filter_def
    by (simp add: select_loop_separated [of min_gap_days "[]" "[]"])
  have "gap_separated min_gap_days (res ! i) (res ! j)"
  proof (cases "i < j")
    case True
    then show ?thesis using sorted_wrt_nth_less [OF sep True j] by simp
  next
    case False
    then have "j < i" using ne by simp
    then have "gap_separated min_gap_days (res ! j) (res ! i)"
      using sorted_wrt_nth_less [OF sep _ i] by simp
    then show ?thesis using gap_separated_sym by blast
  qed
  then show ?thesis by (simp add: gap_separated_def)
qed

theorem returned_matches_gap_separated_witness:
  "find_similar_patterns lockstep tri_frame 8 5 0
     = Inr ([tri_candidate 0, tri_candidate 20], replicate 20 1, 40, 59) \<and>
   (0::nat) < length [tri_candidate 0, tri_candidate 20] \<and>
   (1::nat) < length [tri_candidate 0, tri_candidate 20] \<and> (0::nat) \<noteq> 1 \<and>
   (end_idx (tri_candidate 0) < start_idx (tri_candidate 20) - 0 \<or>
    start_idx (tri_candidate 0) > end_idx (tri_candidate 20) + 0)"
  using returned_matches_gap_separated [OF tri_run, of 0 1] tri_run by simp

section \<open>Claim C5: length of the returned list\<close>

text \<open>
  C5 states that the returned list has at most \<open>top_n\<close> elements, sorted by ascending
  distance, with the distance as the only ranking key.  The order and the key are as
  stated (see the section on ranking and selection).  The length test of line 197 runs
  only after a match has been appended, so a call with \<open>top_n = 0\<close> returns one match:
  the sixty-day example, evaluated.
\<close>

theorem top_n_zero_returns_one_match:
  "find_similar_patterns lockstep tri_frame 8 0 0
     = Inr ([tri_candidate 0], replicate 20 1, 40, 59) \<and>
   \<not> int (length [tri_candidate 0]) \<le> 0"
  unfolding find_similar_patterns_def tri_scan by (simp add: tri_select_0)

section \<open>Claim C6: the scanned range and the history failure\<close>



section \<open>Claim C7: the reference window\<close>

text \<open>
  C7.  \<open>get_recent_pattern\<close> computes \<open>days = max (ceiling (hours / 4)) 20\<close>, fails
  when the series is shorter than \<open>days\<close>, and otherwise returns the trailing window
  with \<open>end = length - 1\<close> and \<open>start = max 0 (end - days + 1)\<close>.  A series of length
  100 with 8 hours gives the window \<open>[80, 99]\<close> of 20 samples; a series of length 10
  with 40 hours fails.
\<close>

theorem get_recent_pattern_window:
  "days_needed_of a_hours = max \<lceil>a_hours / 4\<rceil> 20 \<and>
   get_recent_pattern data a_hours =
     (if int (length data) < days_needed_of a_hours
      then Inl (DataShortage (days_needed_of a_hours) (int (length data)))
      else Inr (iloc_slice (map close_norm data)
                  (max 0 (int (length data) - 1 - days_needed_of a_hours + 1))
                  (int (length data) - 1 + 1),
                max 0 (int (length data) - 1 - days_needed_of a_hours + 1),
                int (length data) - 1)) \<and>
   (length data100 = 100 \<longrightarrow>
      (\<exists>p. get_recent_pattern data100 8 = Inr (p, 80, 99) \<and> length p = 20)) \<and>
   (length data10 = 10 \<longrightarrow> get_recent_pattern data10 40 = Inl (DataShortage 20 10))"
proof (intro conjI impI)
  show "days_needed_of a_hours = max \<lceil>a_hours / 4\<rceil> 20" by (rule days_needed_of_eq)
  show "get_recent_pattern data a_hours =
     (if int (length data) < days_needed_of a_hours
      then Inl (DataShortage (days_needed_of a_hours) (int (length data)))
      else Inr (iloc_slice (map close_norm data)
                  (max 0 (int (length data) - 1 - days_needed_of a_hours + 1))
                  (int (length data) - 1 + 1),
                max 0 (int (length data) - 1 - days_needed_of a_hours + 1),
                int (length data) - 1))"
    by (simp add: get_recent_pattern_eq)
next
  assume len: "length data100 = 100"
  have d: "days_needed_of 8 = 20" by (simp add: days_needed_of_eq)
  have "int (length (iloc_slice (map close_norm data100) 80 100)) = 100 - 80"
    by (rule iloc_slice_in_bounds) (simp_all add: len)
  then show "\<exists>p. get_recent_pattern data100 8 = Inr (p, 80, 99) \<and> length p = 20"
    by (simp add: get_recent_pattern_eq d len)
next
  assume len: "length data10 = 10"
  have d: "days_needed_of 40 = 20" by (simp add: days_needed_of_eq)
  show "get_recent_pattern data10 40 = Inl (DataShortage 20 10)"
    by (simp add: get_recent_pattern_eq d len)
qed

theorem get_recent_pattern_window_witness:
  "length (replicate 100 unit_bar) = 100 \<and>
   (\<exists>p. get_recent_pattern (replicate 100 unit_bar) 8 = Inr (p, 80, 99) \<and> length p = 20) \<and>
   length (replicate 10 unit_bar) = 10 \<and>
   get_recent_pattern (replicate 10 unit_bar) 40 = Inl (DataShortage 20 10)"
proof -
  have "(length (replicate 100 unit_bar) = 100 \<longrightarrow>
           (\<exists>p. get_recent_pattern (replicate 100 unit_bar) 8 = Inr (p, 80, 99) \<and> length p = 20)) \<and>
        (length (replicate 10 unit_bar) = 10 \<longrightarrow>
           get_recent_pattern (replicate 10 unit_bar) 40 = Inl (DataShortage 20 10))"
    using get_recent_pattern_window
      [of 8 "replicate 100 unit_bar" "replicate 100 unit_bar" "replicate 10 unit_bar"]
    by blast
  then show ?thesis by simp
qed

section \<open>Claim C8: normalize_series\<close>

text \<open>
  C8.  For every non-empty numeric sequence, \<open>normalize_series\<close> returns a sequence of
  the same length.  If all input values are equal, the result is all zeros; otherwise
  it is \<open>(v - min) / (max - min)\<close> elementwise, and the result has minimum 0 and
  maximum 1.
\<close>

theorem normalize_series_contract:
  assumes "series \<noteq> []"
  shows "\<exists>out. normalize_series series = Inr out \<and> length out = length series \<and>
           (if \<forall>v\<in>set series. v = hd series
            then out = replicate (length series) 0
            else out = map (\<lambda>v. (v - Min (set series)) / (Max (set series) - Min (set series)))
                         series
                 \<and> Min (set out) = 0 \<and> Max (set out) = 1)"
proof (cases "Max (set series) = Min (set series)")
  case True
  then have "\<forall>v\<in>set series. v = hd series"
    using Max_eq_Min_iff_constant [OF assms] by simp
  then show ?thesis using True by (simp add: normalize_series_eq [OF assms])
next
  case False
  then have nc: "\<not> (\<forall>v\<in>set series. v = hd series)"
    using Max_eq_Min_iff_constant [OF assms] by simp
  let ?out = "map (\<lambda>v. (v - Min (set series)) / (Max (set series) - Min (set series))) series"
  have run: "normalize_series series = Inr ?out"
    using False by (simp add: normalize_series_eq [OF assms])
  have ext: "Min (set ?out) = 0 \<and> Max (set ?out) = 1"
    using scaled_Min_Max [OF assms False] by simp
  have "normalize_series series = Inr ?out \<and> length ?out = length series \<and>
        (if \<forall>v\<in>set series. v = hd series
         then ?out = replicate (length series) 0
         else ?out = ?out \<and> Min (set ?out) = 0 \<and> Max (set ?out) = 1)"
    unfolding if_not_P [OF nc] using run ext by simp
  then show ?thesis by (rule exI)
qed

theorem normalize_series_contract_witness:
  "[3, 1, 2 :: real] \<noteq> [] \<and>
   normalize_series [3, 1, 2] = Inr [1, 0, 1 / 2] \<and>
   normalize_series [5, 5] = Inr [0, 0] \<and>
   Min (set [1, 0, 1 / 2 :: real]) = 0 \<and> Max (set [1, 0, 1 / 2 :: real]) = 1"
  using normalize_series_contract [of "[3, 1, 2]"] normalize_series_contract [of "[5, 5]"]
  by (simp add: normalize_series_def)

section \<open>Claim C9: the first match has the least distance\<close>

text \<open>
  C9.  Whenever \<open>find_similar_patterns\<close> returns, its list of matches is not empty, and
  the first match is a scanned candidate whose distance is less than or equal to the
  distance of every scanned candidate, selected or not.
\<close>

theorem first_match_has_least_distance:
  assumes run: "find_similar_patterns fastdtw data a_hours top_n min_gap_days
                  = Inr (res, rp, rs, re)"
  shows "\<exists>sims. scan_candidates fastdtw data a_hours min_gap_days = Inr (sims, rp, rs, re) \<and>
           res \<noteq> [] \<and> hd res \<in> set sims \<and>
           (\<forall>c\<in>set sims. dtw_distance (hd res) \<le> dtw_distance c)"
proof -
  obtain sims where sc: "scan_candidates fastdtw data a_hours min_gap_days = Inr (sims, rp, rs, re)"
    and res: "res = rank_and_filter top_n min_gap_days sims"
    using find_similar_patterns_Inr [OF run] by blast
  have "sort_key dtw_distance sims \<noteq> []"
    using scan_candidates_indices(3) [OF sc] by (metis set_sort set_empty)
  then obtain x xs where ranked: "sort_key dtw_distance sims = x # xs"
    by (cases "sort_key dtw_distance sims") auto
  have first: "res \<noteq> [] \<and> hd res = x"
    unfolding res rank_and_filter_def ranked by (rule select_loop_first)
  have "sorted (map dtw_distance (x # xs))"
    using sorted_sort_key [of dtw_distance sims] ranked by simp
  then have "\<forall>c\<in>set (x # xs). dtw_distance x \<le> dtw_distance c" by auto
  then have "\<forall>c\<in>set (sort_key dtw_distance sims). dtw_distance x \<le> dtw_distance c"
    unfolding ranked .
  then have least: "\<forall>c\<in>set sims. dtw_distance x \<le> dtw_distance c" by simp
  have "x \<in> set (sort_key dtw_distance sims)" unfolding ranked by simp
  then have "x \<in> set sims" by simp
  then have "hd res \<in> set sims \<and> (\<forall>c\<in>set sims. dtw_distance (hd res) \<le> dtw_distance c)"
    using first least by simp
  then show ?thesis using sc first by blast
qed

theorem first_match_has_least_distance_witness:
  "find_similar_patterns lockstep tri_frame 8 5 0
     = Inr ([tri_candidate 0, tri_candidate 20], replicate 20 1, 40, 59) \<and>
   [tri_candidate 0, tri_candidate 20] \<noteq> [] \<and>
   list_all (\<lambda>c. dtw_distance (tri_candidate 0) \<le> dtw_distance c) (map tri_candidate [0..20])"
proof -
  obtain sims where sc: "scan_candidates lockstep tri_frame 8 0 = Inr (sims, replicate 20 1, 40, 59)"
    and least: "\<forall>c\<in>set sims.
                  dtw_distance (hd [tri_candidate 0, tri_candidate 20]) \<le> dtw_distance c"
    using first_match_has_least_distance [OF tri_run] by blast
  have "sims = map tri_candidate [0..20]" using sc tri_scan by simp
  then have "list_all (\<lambda>c. dtw_distance (tri_candidate 0) \<le> dtw_distance c)
               (map tri_candidate [0..20])"
    using least by (simp add: list_all_iff)
  then show ?thesis using tri_run by simp
qed

section \<open>Claim C10: the ranking is determined, ties in scan order\<close>

text \<open>
  C10.  \<open>find_similar_patterns\<close> is a function of the frame, the distance function and
  its three parameters; it reads no other state.  The scan lists the candidates by
  strictly ascending start index.  The ranking puts a candidate before another when its
  distance is smaller, or when the distances are equal and its start index is smaller;
  it is the only arrangement of the candidates with this property.  The returned list
  is the selection from this ranking and is in the same order.
\<close>

theorem ranking_ties_in_scan_order:
  assumes run: "find_similar_patterns fastdtw data a_hours top_n min_gap_days
                  = Inr (res, rp, rs, re)"
  shows "\<exists>sims. scan_candidates fastdtw data a_hours min_gap_days = Inr (sims, rp, rs, re) \<and>
           sorted_wrt (<) (map start_idx sims) \<and>
           sorted_wrt ranked_before (sort_key dtw_distance sims) \<and>
           (\<forall>ys. set ys = set sims \<and> sorted_wrt ranked_before ys
                  \<longrightarrow> ys = sort_key dtw_distance sims) \<and>
           res = select_loop top_n min_gap_days (sort_key dtw_distance sims) [] [] \<and>
           sorted_wrt ranked_before res"
proof -
  obtain sims where sc: "scan_candidates fastdtw data a_hours min_gap_days = Inr (sims, rp, rs, re)"
    and res: "res = rank_and_filter top_n min_gap_days sims"
    using find_similar_patterns_Inr [OF run] by blast
  have asc: "sorted_wrt (<) (map start_idx sims)" by (rule scan_candidates_indices(4) [OF sc])
  have ranked: "sorted_wrt ranked_before (sort_key dtw_distance sims)"
    by (rule sort_key_ranked [OF asc])
  have uniq: "\<forall>ys. set ys = set sims \<and> sorted_wrt ranked_before ys
                  \<longrightarrow> ys = sort_key dtw_distance sims"
    using ranked_unique [OF _ ranked] by simp
  have "sorted_wrt ranked_before res"
    unfolding res rank_and_filter_def by (rule select_loop_sorted_wrt) (simp add: ranked)
  then show ?thesis using sc asc ranked uniq res by (auto simp: rank_and_filter_def)
qed

theorem ranking_ties_in_scan_order_witness:
  "find_similar_patterns lockstep tri_frame 8 5 0
     = Inr ([tri_candidate 0, tri_candidate 20], replicate 20 1, 40, 59) \<and>
   sort_key dtw_distance (map tri_candidate [0..20]) =
     map tri_candidate [0, 1, 20, 2, 19, 3, 18, 4, 17, 5, 16, 6, 15, 7, 14, 8, 13, 9, 12, 10, 11] \<and>
   dtw_distance (tri_candidate 1) = dtw_distance (tri_candidate 20) \<and>
   set (sort_key dtw_distance (map tri_candidate [0..20])) = set (map tri_candidate [0..20]) \<and>
   sorted_wrt ranked_before (sort_key dtw_distance (map tri_candidate [0..20])) \<and>
   sorted_wrt ranked_before [tri_candidate 0, tri_candidate 20]"
proof -
  obtain sims where sc: "scan_candidates lockstep tri_frame 8 0 = Inr (sims, replicate 20 1, 40, 59)"
    and ranked: "sorted_wrt ranked_before (sort_key dtw_distance sims)"
    and uniq: "\<forall>ys. set ys = set sims \<and> sorted_wrt ranked_before ys
                 \<longrightarrow> ys = sort_key dtw_distance sims"
    and res: "sorted_wrt ranked_before [tri_candidate 0, tri_candidate 20]"
    using ranking_ties_in_scan_order [OF tri_run] by blast
  have sims: "sims = map tri_candidate [0..20]" using sc tri_scan by simp
  have tie: "dtw_distance (tri_candidate 1) = dtw_distance (tri_candidate 20)"
    by (simp only: tri_distances)
  have same: "set (sort_key dtw_distance (map tri_candidate [0..20]))
                = set (map tri_candidate [0..20])"
    by (rule set_sort)
  show ?thesis using tri_run tri_ranking tie same ranked res unfolding sims by blast
qed

end
